theory Spec2Isabelle
  imports Main "HOL-Library.Word"
begin

section \<open>Playback state machine (package client, type AudioState)\<close>

text \<open>
  The Go struct AudioState has the fields Lock, State, Cond, Ctx and Cancel.
  State is a Go string compared against three string constants. Cond is a pointer to a
  condition variable: \<open>None\<close> is the nil pointer, \<open>Some n\<close> a condition variable on
  which Broadcast has been called \<open>n\<close> times. Ctx and Cancel are a context and its cancel
  function: contexts are numbered, \<open>Cancel = Some c\<close> is the function that cancels
  context \<open>c\<close>, and \<open>None\<close> is the nil function value. The mutex is taken and released
  inside every method (the release is deferred, so it also runs when the method panics);
  a single caller at a time is modelled, so Lock carries no state here.
\<close>

definition AudioChannelStateIdle :: string where
  "AudioChannelStateIdle = ''idle''"

definition AudioChannelStatePlaying :: string where
  "AudioChannelStatePlaying = ''playing''"

definition AudioChannelStatePause :: string where
  "AudioChannelStatePause = ''pause''"

record AudioState =
  State :: string
  Cond :: "nat option"
  Ctx :: "nat option"
  Cancel :: "nat option"

text \<open>
  The contexts that exist outside the struct: which of them have been cancelled, and the
  number the next context created by \<open>context.WithCancel\<close> gets.
\<close>

record contexts =
  cancelled :: "nat list"
  next_ctx :: nat

datatype panic = NilFuncCall | NilPointerDereference

definition NewAudioState :: AudioState where
  "NewAudioState = \<lparr>State = AudioChannelStateIdle, Cond = Some 0, Ctx = None, Cancel = None\<rparr>"

text \<open>\<open>a.Cond.Broadcast()\<close>: a nil Cond is dereferenced and panics.\<close>

definition Broadcast :: "AudioState \<Rightarrow> panic + AudioState" where
  "Broadcast a = (case Cond a of
       None \<Rightarrow> Inl NilPointerDereference
     | Some n \<Rightarrow> Inr (a\<lparr>Cond := Some (Suc n)\<rparr>))"

definition SetPause :: "AudioState \<Rightarrow> panic + AudioState" where
  "SetPause a =
     (if State a = AudioChannelStatePlaying
      then Broadcast (a\<lparr>State := AudioChannelStatePause\<rparr>)
      else Inr a)"

definition GetState :: "AudioState \<Rightarrow> string" where
  "GetState a = State a"

definition SetStop :: "AudioState \<Rightarrow> panic + AudioState" where
  "SetStop a =
     (if State a = AudioChannelStatePlaying \<or> State a = AudioChannelStatePause
      then Broadcast (a\<lparr>State := AudioChannelStateIdle\<rparr>)
      else Inr a)"

definition SetPlay :: "AudioState \<Rightarrow> panic + AudioState" where
  "SetPlay a = Broadcast (a\<lparr>State := AudioChannelStatePlaying\<rparr>)"

text \<open>\<open>a.Cancel()\<close>: calling a nil function value panics; otherwise the context is cancelled.\<close>

definition call_Cancel :: "contexts \<Rightarrow> AudioState \<Rightarrow> panic + contexts" where
  "call_Cancel cs a = (case Cancel a of
       None \<Rightarrow> Inl NilFuncCall
     | Some c \<Rightarrow> Inr (cs\<lparr>cancelled := c # cancelled cs\<rparr>))"

definition CancelCtx :: "contexts \<Rightarrow> AudioState \<Rightarrow> panic + (contexts \<times> AudioState)" where
  "CancelCtx cs a = (case call_Cancel cs a of
       Inl p \<Rightarrow> Inl p
     | Inr cs' \<Rightarrow> Inr (cs', a\<lparr>State := AudioChannelStateIdle\<rparr>))"

definition RestartSessionCtx :: "contexts \<Rightarrow> AudioState \<Rightarrow> panic + (contexts \<times> AudioState)" where
  "RestartSessionCtx cs a = (case call_Cancel cs a of
       Inl p \<Rightarrow> Inl p
     | Inr cs' \<Rightarrow>
         Inr (cs'\<lparr>next_ctx := Suc (next_ctx cs')\<rparr>,
              a\<lparr>State := AudioChannelStateIdle,
                Ctx := Some (next_ctx cs'), Cancel := Some (next_ctx cs')\<rparr>))"

section \<open>Messages of the language-model stream (eino schema, package common)\<close>

text \<open>
  Of \<open>schema.Message\<close> and \<open>schema.ToolCall\<close> the fields the repository reads or writes
  are kept. A Go slice that is nil and one that is empty are both the empty list: the
  code tests \<open>len(...) > 0\<close> wherever it tests for nil.
\<close>

record FunctionCall =
  Name :: string
  Arguments :: string

record ToolCall =
  Index :: "int option"
  ID :: string
  Type :: string
  Function :: FunctionCall

datatype RoleType = Assistant | User | System | Tool

record Message =
  Role :: RoleType
  Content :: string
  ToolCalls :: "ToolCall list"

text \<open>
  \<open>Recv()\<close> of a stream reader returns a message pointer and an error, either of which
  may be nil. A stream is the list of the results its successive calls return; a reader
  whose list is used up is a closed stream, on which Recv returns \<open>(nil, io.EOF)\<close>.
\<close>

datatype error = EOF | Failure string

type_synonym recv = "Message option \<times> error option"

section \<open>Tool-call accumulator (package eino\_llm, EinoResponseWithTools)\<close>

text \<open>
  The three local variables of the goroutine and the messages sent so far on
  \<open>responseStreamWriter\<close>. \<open>isValidJSON\<close> wraps \<open>json.Unmarshal\<close> of the Go standard
  library into a \<open>map[string]interface{}\<close>; it is a parameter of the model.
\<close>

record accumulator =
  currentToolCall :: "ToolCall option"
  toolCallBuffer :: string
  isToolCallComplete :: bool
  responseStream :: "Message list"

definition accumulator_init :: accumulator where
  "accumulator_init =
     \<lparr>currentToolCall = None, toolCallBuffer = [], isToolCallComplete = False,
      responseStream = []\<rparr>"

definition completeMessage :: "ToolCall \<Rightarrow> Message" where
  "completeMessage tc = \<lparr>Role = Assistant, Content = [], ToolCalls = [tc]\<rparr>"

text \<open>Lines 363--377: a named fragment starts a tool call, an unnamed one continues it.\<close>

definition accumulate :: "(string \<Rightarrow> bool) \<Rightarrow> ToolCall \<Rightarrow> accumulator \<Rightarrow> accumulator" where
  "accumulate isValidJSON toolCall acc =
     (if Name (Function toolCall) \<noteq> []
      then acc\<lparr>currentToolCall := Some toolCall,
               toolCallBuffer := Arguments (Function toolCall),
               isToolCallComplete := False\<rparr>
      else (case currentToolCall acc of
              None \<Rightarrow> acc
            | Some cur \<Rightarrow>
                (let buf = toolCallBuffer acc @ Arguments (Function toolCall);
                     cur' = cur\<lparr>Function := (Function cur)\<lparr>Arguments := buf\<rparr>\<rparr>;
                     acc' = acc\<lparr>toolCallBuffer := buf, currentToolCall := Some cur'\<rparr>
                 in if isValidJSON buf then acc'\<lparr>isToolCallComplete := True\<rparr> else acc')))"

text \<open>Lines 380--391: a complete tool call is sent and the three variables are reset.\<close>

definition emit_complete :: "accumulator \<Rightarrow> panic + accumulator" where
  "emit_complete acc =
     (if isToolCallComplete acc
      then (case currentToolCall acc of
              None \<Rightarrow> Inl NilPointerDereference
            | Some cur \<Rightarrow>
                Inr (acc\<lparr>responseStream := responseStream acc @ [completeMessage cur],
                         currentToolCall := None, toolCallBuffer := [],
                         isToolCallComplete := False\<rparr>))
      else Inr acc)"

text \<open>Lines 358--397: the body of the loop for a message that is not nil.\<close>

definition on_message :: "(string \<Rightarrow> bool) \<Rightarrow> Message \<Rightarrow> accumulator \<Rightarrow> panic + accumulator" where
  "on_message isValidJSON message acc =
     (case ToolCalls message of
        toolCall # _ \<Rightarrow> emit_complete (accumulate isValidJSON toolCall acc)
      | [] \<Rightarrow>
          (if Content message \<noteq> []
           then Inr (acc\<lparr>responseStream := responseStream acc @ [message\<lparr>ToolCalls := []\<rparr>]\<rparr>)
           else Inr acc))"

text \<open>Lines 342--352: at the end of the stream an unfinished tool call is sent as it is.\<close>

definition on_stream_end :: "accumulator \<Rightarrow> accumulator" where
  "on_stream_end acc =
     (case currentToolCall acc of
        None \<Rightarrow> acc
      | Some cur \<Rightarrow> acc\<lparr>responseStream := responseStream acc @ [completeMessage cur]\<rparr>)"

fun response_loop :: "(string \<Rightarrow> bool) \<Rightarrow> recv list \<Rightarrow> accumulator \<Rightarrow> panic + accumulator" where
  "response_loop isValidJSON [] acc = Inr (on_stream_end acc)"
| "response_loop isValidJSON ((message, err) # rs) acc =
     (if err = Some EOF then Inr (on_stream_end acc)
      else if err \<noteq> None then Inr acc
      else (case message of
              None \<Rightarrow> response_loop isValidJSON rs acc
            | Some m \<Rightarrow>
                (case on_message isValidJSON m acc of
                   Inl p \<Rightarrow> Inl p
                 | Inr acc' \<Rightarrow> response_loop isValidJSON rs acc')))"

text \<open>
  \<open>p.chatModel.Stream\<close> returns a stream reader and an error. The result is the list of
  messages sent on the response stream before the deferred Close, or the panic.
\<close>

definition EinoResponseWithTools ::
  "(string \<Rightarrow> bool) \<Rightarrow> recv list option \<times> error option \<Rightarrow> panic + Message list" where
  "EinoResponseWithTools isValidJSON chatModel_Stream =
     (case chatModel_Stream of
        (_, Some e) \<Rightarrow> Inr []
      | (None, None) \<Rightarrow> Inr []
      | (Some rs, None) \<Rightarrow>
          (case response_loop isValidJSON rs accumulator_init of
             Inl p \<Rightarrow> Inl p
           | Inr acc \<Rightarrow> Inr (responseStream acc)))"

section \<open>Response pipeline controller (package llm, HandleLLMWithContextAndTools)\<close>

record LLMResponseStruct =
  Text :: string
  IsStart :: bool
  IsEnd :: bool
  RespToolCalls :: "ToolCall list"

text \<open>
  The sentence segmenter (package \<open>internal/util/sentence\<close>) is called through two
  functions whose code is not part of the sources at hand; the controller is modelled
  for any pair of them.
\<close>

record segmenter =
  ContainsSentenceSeparator :: "string \<Rightarrow> bool \<Rightarrow> bool"
  ExtractSmartSentences :: "string \<Rightarrow> int \<Rightarrow> int \<Rightarrow> bool \<Rightarrow> string list \<times> string"

text \<open>
  Cancellation comes from outside the goroutine. The goroutine looks at \<open>ctx.Done()\<close> in
  \<open>select\<close> statements only, so a context is modelled by what each of them observes:
  \<open>ctx k\<close> holds when the \<open>k\<close>-th \<open>select\<close> executed by the run takes the
  \<open>ctx.Done()\<close> branch. A \<open>select\<close> that sends does so when it does not take that
  branch: the consumer of the channel is assumed to keep reading.
\<close>

type_synonym cancellation = "nat \<Rightarrow> bool"

text \<open>
  The local variables of the goroutine, the number of \<open>select\<close> statements executed
  so far and the events sent so far on \<open>sentenceChannel\<close>, oldest first.
\<close>

record controller =
  buffer :: string
  isFirst :: bool
  firstFrame :: bool
  fullText :: string
  selects :: nat
  sentenceChannel :: "LLMResponseStruct list"

definition controller_init :: controller where
  "controller_init =
     \<lparr>buffer = [], isFirst = True, firstFrame = False, fullText = [], selects = 0,
      sentenceChannel = []\<rparr>"

text \<open>A step of the goroutine either goes on or executes \<open>return\<close>.\<close>

datatype 'a flow = Continue 'a | Return 'a

text \<open>\<open>select { case <-ctx.Done(): return; case sentenceChannel <- ev: }\<close>\<close>

definition send :: "cancellation \<Rightarrow> LLMResponseStruct \<Rightarrow> controller \<Rightarrow> controller flow" where
  "send ctx ev st =
     (if ctx (selects st)
      then Return (st\<lparr>selects := Suc (selects st)\<rparr>)
      else Continue (st\<lparr>selects := Suc (selects st),
                       sentenceChannel := sentenceChannel st @ [ev]\<rparr>))"

text \<open>Lines 54--81: the end of the upstream stream.\<close>

definition on_EOF :: "cancellation \<Rightarrow> controller \<Rightarrow> controller" where
  "on_EOF ctx st =
     (let remaining = buffer st in
      if remaining \<noteq> []
      then (case send ctx \<lparr>Text = remaining, IsStart = False, IsEnd = True, RespToolCalls = []\<rparr>
                   (st\<lparr>fullText := fullText st @ remaining\<rparr>) of
              Return st' \<Rightarrow> st' | Continue st' \<Rightarrow> st')
      else (case send ctx \<lparr>Text = [], IsStart = False, IsEnd = True, RespToolCalls = []\<rparr> st of
              Return st' \<Rightarrow> st' | Continue st' \<Rightarrow> st'))"

text \<open>Lines 94--116: the loop over the extracted sentences.\<close>

fun send_sentences :: "cancellation \<Rightarrow> string list \<Rightarrow> controller \<Rightarrow> controller flow" where
  "send_sentences ctx [] st = Continue st"
| "send_sentences ctx (sentence # sentences) st =
     (if sentence \<noteq> []
      then (case send ctx \<lparr>Text = sentence, IsStart = isFirst st, IsEnd = False,
                           RespToolCalls = []\<rparr>
                   (st\<lparr>firstFrame := True\<rparr>) of
              Return st' \<Rightarrow> Return st'
            | Continue st' \<Rightarrow> send_sentences ctx sentences (st'\<lparr>isFirst := False\<rparr>))
      else send_sentences ctx sentences st)"

text \<open>Lines 88--124: the text of a message.\<close>

definition on_content :: "segmenter \<Rightarrow> cancellation \<Rightarrow> Message \<Rightarrow> controller \<Rightarrow> controller flow" where
  "on_content sg ctx message st =
     (if Content message \<noteq> []
      then (let st1 = st\<lparr>fullText := fullText st @ Content message,
                         buffer := buffer st @ Content message\<rparr>
            in if ContainsSentenceSeparator sg (Content message) (isFirst st1)
               then (case ExtractSmartSentences sg (buffer st1) 2 100 (isFirst st1) of
                       (sentences, remaining) \<Rightarrow>
                         (case (if sentences \<noteq> [] then send_sentences ctx sentences st1
                                else Continue st1) of
                            Return st' \<Rightarrow> Return st'
                          | Continue st2 \<Rightarrow> Continue (st2\<lparr>buffer := remaining, isFirst := False\<rparr>)))
               else Continue st1)
      else Continue st)"

text \<open>Lines 126--138: the tool calls of a message.\<close>

definition on_tool_calls :: "cancellation \<Rightarrow> Message \<Rightarrow> controller \<Rightarrow> controller flow" where
  "on_tool_calls ctx message st =
     (if ToolCalls message \<noteq> []
      then send ctx \<lparr>Text = [], IsStart = isFirst st, IsEnd = False,
                     RespToolCalls = ToolCalls message\<rparr> st
      else Continue st)"

text \<open>
  Lines 45--139: the \<open>for\<close> loop, one equation per state of the upstream. An error that
  is not \<open>io.EOF\<close> is not acted on at line 53: control falls through to the test of
  \<open>message\<close> at line 83, which leaves the loop when the message is nil.
\<close>

fun loop :: "segmenter \<Rightarrow> cancellation \<Rightarrow> recv list \<Rightarrow> controller \<Rightarrow> controller" where
  "loop sg ctx [] st =
     (if ctx (selects st) then st\<lparr>selects := Suc (selects st)\<rparr>
      else on_EOF ctx (st\<lparr>selects := Suc (selects st)\<rparr>))"
| "loop sg ctx ((message, err) # rs) st =
     (if ctx (selects st) then st\<lparr>selects := Suc (selects st)\<rparr>
      else (let st0 = st\<lparr>selects := Suc (selects st)\<rparr>
            in if err = Some EOF then on_EOF ctx st0
               else (case message of
                       None \<Rightarrow> st0
                     | Some m \<Rightarrow>
                         (case on_content sg ctx m st0 of
                            Return st' \<Rightarrow> st'
                          | Continue st1 \<Rightarrow>
                              (case on_tool_calls ctx m st1 of
                                 Return st' \<Rightarrow> st'
                               | Continue st2 \<Rightarrow> loop sg ctx rs st2)))))"

text \<open>
  The channel as its consumer sees it once the goroutine has ended: the events sent, and
  whether the deferred \<open>close(sentenceChannel)\<close> has run.
\<close>

record channel =
  events :: "LLMResponseStruct list"
  closed :: bool

text \<open>
  \<open>llmProvider.WithTools\<close> and \<open>llmProvider.Stream\<close> either fail, and the function
  returns the error and no channel, or give the upstream stream.
\<close>

definition HandleLLMWithContextAndTools ::
  "segmenter \<Rightarrow> cancellation \<Rightarrow> error + recv list \<Rightarrow> error + channel" where
  "HandleLLMWithContextAndTools sg ctx llmStreamReader =
     (case llmStreamReader of
        Inl e \<Rightarrow> Inl e
      | Inr rs \<Rightarrow>
          Inr \<lparr>events = sentenceChannel (loop sg ctx rs controller_init), closed = True\<rparr>)"

text \<open>
  A sentence event is an event with a text that is not the end event; a delta is a result
  of Recv that the loop takes as a message: the message is not nil and the error is not
  \<open>io.EOF\<close>; the stream is at its end when the next Recv returns \<open>io.EOF\<close>.
\<close>

definition is_sentence_event :: "LLMResponseStruct \<Rightarrow> bool" where
  "is_sentence_event ev = (Text ev \<noteq> [] \<and> \<not> IsEnd ev)"

definition is_delta :: "recv \<Rightarrow> bool" where
  "is_delta r = (fst r \<noteq> None \<and> snd r \<noteq> Some EOF)"

fun at_EOF :: "recv list \<Rightarrow> bool" where
  "at_EOF [] = True"
| "at_EOF ((message, err) # rs) = (err = Some EOF)"

section \<open>TTS fan-out adapter (package tts, ContextTTSAdapter.Transform)\<close>

text \<open>
  \<open>types.TtsChunk\<close> and \<open>types.Options\<close>. A callback of Options is a Go function
  value without parameters or result: the field says whether it is set (not nil), and the
  run records each call it makes.
\<close>

type_synonym frame = "8 word list"

record TtsChunk =
  ChunkText :: string
  Data :: frame

record Options =
  SampleRate :: int
  Channel :: int
  FrameDuration :: int
  TtsChunkStartCallback :: bool
  TtsChunkEndCallback :: bool

datatype callback = ChunkStart | ChunkEnd

text \<open>
  \<open>TextToSpeechStream\<close> of the wrapped provider: an error, or a channel, given by the
  frames it yields before the provider closes it.
\<close>

type_synonym provider = "string \<Rightarrow> int \<Rightarrow> int \<Rightarrow> int \<Rightarrow> error + frame list"

text \<open>
  What the goroutine observes of its surroundings: \<open>ctx_Done env k\<close> holds when its
  \<open>k\<close>-th look at \<open>ctx.Done()\<close> finds the context cancelled, and \<open>send_closed env k\<close>
  holds when its \<open>k\<close>-th Send on a stream writer reports that the reader has closed the
  stream.
\<close>

record environment =
  ctx_Done :: "nat \<Rightarrow> bool"
  send_closed :: "nat \<Rightarrow> bool"

text \<open>A sub-stream of audio chunks: the chunks sent on it and whether its writer closed it.\<close>

record audioStream =
  chunks :: "TtsChunk list"
  writer_closed :: bool

text \<open>
  The state of the goroutine: the looks at the context and the Sends made so far, the
  sub-streams sent on the outer stream (the last one is the one being written), whether
  the outer stream has been closed, and the calls of the callbacks.
\<close>

record adapter =
  ctx_checks :: nat
  sends :: nat
  sentenceStream :: "audioStream list"
  sentenceStream_closed :: bool
  callbacks :: "callback list"

definition adapter_init :: adapter where
  "adapter_init =
     \<lparr>ctx_checks = 0, sends = 0, sentenceStream = [], sentenceStream_closed = False,
      callbacks = []\<rparr>"

text \<open>The writer of the sub-stream last sent on the outer stream.\<close>

definition on_audioStream :: "(audioStream \<Rightarrow> audioStream) \<Rightarrow> adapter \<Rightarrow> adapter" where
  "on_audioStream f st =
     (case rev (sentenceStream st) of
        [] \<Rightarrow> st
      | cur # earlier \<Rightarrow> st\<lparr>sentenceStream := rev earlier @ [f cur]\<rparr>)"

definition audioStreamWriter_Close :: "adapter \<Rightarrow> adapter" where
  "audioStreamWriter_Close st = on_audioStream (\<lambda>a. a\<lparr>writer_closed := True\<rparr>) st"

text \<open>
  \<open>if closed := audioStreamWriter.Send(chunk, nil); closed { audioStreamWriter.Close();
  return }\<close>
\<close>

definition audioStreamWriter_Send :: "environment \<Rightarrow> TtsChunk \<Rightarrow> adapter \<Rightarrow> adapter flow" where
  "audioStreamWriter_Send env chunk st =
     (if send_closed env (sends st)
      then Return (audioStreamWriter_Close (st\<lparr>sends := Suc (sends st)\<rparr>))
      else Continue (on_audioStream (\<lambda>a. a\<lparr>chunks := chunks a @ [chunk]\<rparr>)
                       (st\<lparr>sends := Suc (sends st)\<rparr>)))"

text \<open>Lines 157--174: the frames of the provider's channel are relayed one by one.\<close>

fun relay_frames :: "environment \<Rightarrow> frame list \<Rightarrow> adapter \<Rightarrow> adapter flow" where
  "relay_frames env [] st = Continue st"
| "relay_frames env (frame # frames) st =
     (if ctx_Done env (ctx_checks st)
      then Return (audioStreamWriter_Close (st\<lparr>ctx_checks := Suc (ctx_checks st)\<rparr>))
      else (case audioStreamWriter_Send env \<lparr>ChunkText = [], Data = frame\<rparr>
                   (st\<lparr>ctx_checks := Suc (ctx_checks st)\<rparr>) of
              Return st' \<Rightarrow> Return st'
            | Continue st' \<Rightarrow> relay_frames env frames st'))"

text \<open>
  Lines 118--180: one received message. The message is dereferenced at line 135, after
  the start callback and the Send on the outer stream.
\<close>

definition on_sentence ::
  "environment \<Rightarrow> provider \<Rightarrow> Options \<Rightarrow> Message option \<Rightarrow> adapter \<Rightarrow> panic + adapter flow" where
  "on_sentence env TextToSpeechStream options message st =
     (let st1 = (if TtsChunkStartCallback options
                 then st\<lparr>callbacks := callbacks st @ [ChunkStart]\<rparr> else st)
      in if send_closed env (sends st1)
         then Inr (Return (st1\<lparr>sends := Suc (sends st1)\<rparr>))
         else (let st2 = st1\<lparr>sends := Suc (sends st1),
                            sentenceStream := sentenceStream st1
                              @ [\<lparr>chunks = [], writer_closed = False\<rparr>]\<rparr>
               in case message of
                    None \<Rightarrow> Inl NilPointerDereference
                  | Some m \<Rightarrow>
                      (case audioStreamWriter_Send env \<lparr>ChunkText = Content m, Data = []\<rparr> st2 of
                         Return st' \<Rightarrow> Inr (Return st')
                       | Continue st3 \<Rightarrow>
                           (case TextToSpeechStream (Content m) (SampleRate options)
                                   (Channel options) (FrameDuration options) of
                              Inl e \<Rightarrow> Inr (Return (audioStreamWriter_Close st3))
                            | Inr outputChan \<Rightarrow>
                                (case relay_frames env outputChan st3 of
                                   Return st' \<Rightarrow> Inr (Return st')
                                 | Continue st4 \<Rightarrow>
                                     (let st5 = audioStreamWriter_Close st4
                                      in Inr (Continue
                                           (if TtsChunkEndCallback options
                                            then st5\<lparr>callbacks := callbacks st5 @ [ChunkEnd]\<rparr>
                                            else st5))))))))"

text \<open>Lines 102--181: the loop; any error of Recv, \<open>io.EOF\<close> or not, ends it.\<close>

fun transform_loop ::
  "environment \<Rightarrow> provider \<Rightarrow> Options \<Rightarrow> recv list \<Rightarrow> adapter \<Rightarrow> panic + adapter" where
  "transform_loop env tts options [] st = Inr (st\<lparr>ctx_checks := Suc (ctx_checks st)\<rparr>)"
| "transform_loop env tts options ((message, err) # rs) st =
     (if ctx_Done env (ctx_checks st) then Inr (st\<lparr>ctx_checks := Suc (ctx_checks st)\<rparr>)
      else if err \<noteq> None then Inr (st\<lparr>ctx_checks := Suc (ctx_checks st)\<rparr>)
      else (case on_sentence env tts options message (st\<lparr>ctx_checks := Suc (ctx_checks st)\<rparr>) of
              Inl p \<Rightarrow> Inl p
            | Inr (Return st') \<Rightarrow> Inr st'
            | Inr (Continue st') \<Rightarrow> transform_loop env tts options rs st'))"

text \<open>
  The goroutine of Transform with its deferred \<open>sentenceStreamWriter.Close()\<close>; a panic
  of the goroutine ends the program.
\<close>

definition Transform ::
  "environment \<Rightarrow> provider \<Rightarrow> Options \<Rightarrow> recv list \<Rightarrow> panic + adapter" where
  "Transform env tts options input =
     (case transform_loop env tts options input adapter_init of
        Inl p \<Rightarrow> Inl p
      | Inr st \<Rightarrow> Inr (st\<lparr>sentenceStream_closed := True\<rparr>))"

text \<open>Surroundings in which the context is never cancelled and no reader closes a stream.\<close>

definition undisturbed :: environment where
  "undisturbed = \<lparr>ctx_Done = (\<lambda>k. False), send_closed = (\<lambda>k. False)\<rparr>"

text \<open>
  A provider to run the adapter with: it fails on the text \<open>two\<close> and answers any other
  text with two frames.
\<close>

definition example_provider :: provider where
  "example_provider text sampleRate channels frameDuration =
     (if text = ''two'' then Inl (Failure ''synthesis failed'') else Inr [[1, 2], [3]])"

definition example_options :: Options where
  "example_options =
     \<lparr>SampleRate = 16000, Channel = 1, FrameDuration = 60,
      TtsChunkStartCallback = True, TtsChunkEndCallback = True\<rparr>"

definition sentence_message :: "string \<Rightarrow> recv" where
  "sentence_message text = (Some \<lparr>Role = Assistant, Content = text, ToolCalls = []\<rparr>, None)"

section \<open>Notions used to state the properties\<close>

text \<open>The state a step ends in, whether it goes on or returns.\<close>

fun state_of :: "'a flow \<Rightarrow> 'a" where
  "state_of (Continue s) = s"
| "state_of (Return s) = s"

text \<open>One pass through the body of the loop for a message that is not nil.\<close>

definition iteration :: "segmenter \<Rightarrow> cancellation \<Rightarrow> Message \<Rightarrow> controller \<Rightarrow> controller flow" where
  "iteration sg ctx m st =
     (case on_content sg ctx m st of
        Return st' \<Rightarrow> Return st'
      | Continue st1 \<Rightarrow> on_tool_calls ctx m st1)"

text \<open>
  What a stretch of a run adds to the channel: only its last event can be an end event,
  only the first of its sentence events can carry the start flag, and none does once the
  flag \<open>isFirst\<close> has been cleared.
\<close>

definition run_events :: "controller \<Rightarrow> controller \<Rightarrow> LLMResponseStruct list \<Rightarrow> bool" where
  "run_events st st' new \<longleftrightarrow>
     sentenceChannel st' = sentenceChannel st @ new
     \<and> list_all (\<lambda>ev. \<not> IsEnd ev) (butlast new)
     \<and> list_all (\<lambda>ev. \<not> IsStart ev) (tl (filter is_sentence_event new))
     \<and> (\<not> isFirst st \<longrightarrow> list_all (\<lambda>ev. \<not> IsStart ev) new)"


text \<open>
  The loop on the deltas alone: the state in which the goroutine calls Recv again once
  the listed results have been handled (\<open>Continue\<close>), or the state in which it has
  returned before that.
\<close>

fun after_deltas :: "segmenter \<Rightarrow> cancellation \<Rightarrow> recv list \<Rightarrow> controller \<Rightarrow> controller flow" where
  "after_deltas sg ctx [] st = Continue st"
| "after_deltas sg ctx ((message, err) # rs) st =
     (if ctx (selects st) then Return (st\<lparr>selects := Suc (selects st)\<rparr>)
      else (case message of
              None \<Rightarrow> Return (st\<lparr>selects := Suc (selects st)\<rparr>)
            | Some m \<Rightarrow>
                (case on_content sg ctx m (st\<lparr>selects := Suc (selects st)\<rparr>) of
                   Return st' \<Rightarrow> Return st'
                 | Continue st1 \<Rightarrow>
                     (case on_tool_calls ctx m st1 of
                        Return st' \<Rightarrow> Return st'
                      | Continue st2 \<Rightarrow> after_deltas sg ctx rs st2))))"

text \<open>The text a result of Recv carries, and the texts of a list of them joined.\<close>

definition delta_text :: "recv \<Rightarrow> string" where
  "delta_text r = (case fst r of None \<Rightarrow> [] | Some m \<Rightarrow> Content m)"

text \<open>
  A delta that only adds to the buffer: it carries no tool call and its text, if any,
  has no boundary for a first call of the segmenter.
\<close>

definition plain_delta :: "segmenter \<Rightarrow> recv \<Rightarrow> bool" where
  "plain_delta sg r =
     (case r of
        (None, err) \<Rightarrow> False
      | (Some m, err) \<Rightarrow>
          err \<noteq> Some EOF \<and> ToolCalls m = []
          \<and> (Content m = [] \<or> \<not> ContainsSentenceSeparator sg (Content m) True))"

text \<open>
  A segmenter to run the controller with: a delta has a boundary when it holds a full
  stop, and the text up to the last full stop of the buffer is one sentence, provided it
  has \<open>minLen\<close> characters; otherwise nothing is extracted.
\<close>

definition example_segmenter :: segmenter where
  "example_segmenter =
     \<lparr>ContainsSentenceSeparator = (\<lambda>s isFirst. CHR ''.'' \<in> set s),
      ExtractSmartSentences = (\<lambda>text minLen maxLen isFirst.
         let sentence = rev (dropWhile (\<lambda>c. c \<noteq> CHR ''.'') (rev text))
         in if minLen \<le> int (length sentence)
            then ([sentence], drop (length sentence) text)
            else ([], text))\<rparr>"

text \<open>A context that is never cancelled.\<close>

definition background :: cancellation where
  "background = (\<lambda>k. False)"

text \<open>A result of Recv with every tool-call fragment after the first taken out.\<close>

definition first_fragment_only :: "recv \<Rightarrow> recv" where
  "first_fragment_only r =
     (case r of (message, err) \<Rightarrow>
        (map_option (\<lambda>m. m\<lparr>ToolCalls := take 1 (ToolCalls m)\<rparr>) message, err))"

text \<open>
  A validator to run the accumulator with in examples, in place of \<open>json.Unmarshal\<close>:
  it accepts a text that opens with a brace, closes with a brace and has as many opening
  as closing braces.
\<close>

definition braces_closed :: "string \<Rightarrow> bool" where
  "braces_closed s =
     (s \<noteq> [] \<and> hd s = CHR ''{'' \<and> last s = CHR ''}''
      \<and> length (filter (\<lambda>c. c = CHR ''{'') s) = length (filter (\<lambda>c. c = CHR ''}'') s))"

section \<open>Properties of the playback state machine\<close>

lemma state_constants_distinct:
  "AudioChannelStateIdle \<noteq> AudioChannelStatePlaying"
  "AudioChannelStateIdle \<noteq> AudioChannelStatePause"
  "AudioChannelStatePlaying \<noteq> AudioChannelStatePause"
  by (simp_all add: AudioChannelStateIdle_def AudioChannelStatePlaying_def
      AudioChannelStatePause_def)

text \<open>
  NewAudioState installs the condition variable and no operation removes it; on a struct
  that has it, the three state setters do not panic, and CancelCtx and RestartSessionCtx
  do not panic once a cancel function has been installed.
\<close>

lemma NewAudioState_Cond: "Cond NewAudioState \<noteq> None"
  by (simp add: NewAudioState_def)

lemma setters_keep_Cond:
  "SetPlay a = Inr a' \<or> SetPause a = Inr a' \<or> SetStop a = Inr a' \<Longrightarrow>
   Cond a \<noteq> None \<Longrightarrow> Cond a' \<noteq> None"
  by (auto simp: SetPlay_def SetPause_def SetStop_def Broadcast_def split: if_splits)

lemma cancel_keeps_Cond:
  "CancelCtx cs a = Inr (cs', a') \<or> RestartSessionCtx cs a = Inr (cs', a') \<Longrightarrow>
   Cond a' = Cond a"
  by (auto simp: CancelCtx_def RestartSessionCtx_def split: sum.splits)

lemma setters_do_not_panic:
  "Cond a \<noteq> None \<Longrightarrow>
   (\<exists>a'. SetPlay a = Inr a') \<and> (\<exists>a'. SetPause a = Inr a') \<and> (\<exists>a'. SetStop a = Inr a')"
  by (auto simp: SetPlay_def SetPause_def SetStop_def Broadcast_def)

lemma cancel_does_not_panic:
  "Cancel a \<noteq> None \<Longrightarrow>
   (\<exists>r. CancelCtx cs a = Inr r) \<and> (\<exists>r. RestartSessionCtx cs a = Inr r)"
  by (auto simp: CancelCtx_def RestartSessionCtx_def call_Cancel_def)

text \<open>
  Claim C7. SetPause changes the state, to Pause, only when the current state is Playing,
  and SetStop changes it, to Idle, only when the current state is Playing or Pause; in
  every other state (whatever string State holds) each returns the struct unchanged, with
  no broadcast; and when the transition happens on a struct whose condition variable is
  initialised, exactly one broadcast is made.
\<close>

theorem SetPause_SetStop_transitions:
  "(State a \<noteq> AudioChannelStatePlaying \<longrightarrow> SetPause a = Inr a)
   \<and> (State a = AudioChannelStatePlaying \<longrightarrow> Cond a = Some n \<longrightarrow>
        SetPause a = Inr (a\<lparr>State := AudioChannelStatePause, Cond := Some (Suc n)\<rparr>))
   \<and> (State a \<noteq> AudioChannelStatePlaying \<and> State a \<noteq> AudioChannelStatePause \<longrightarrow>
        SetStop a = Inr a)
   \<and> (State a = AudioChannelStatePlaying \<or> State a = AudioChannelStatePause \<longrightarrow>
        Cond a = Some n \<longrightarrow>
        SetStop a = Inr (a\<lparr>State := AudioChannelStateIdle, Cond := Some (Suc n)\<rparr>))"
  by (simp add: SetPause_def SetStop_def Broadcast_def)

theorem SetPause_SetStop_transitions_witness:
  "SetPause NewAudioState = Inr NewAudioState
   \<and> SetStop NewAudioState = Inr NewAudioState
   \<and> SetPause (NewAudioState\<lparr>State := AudioChannelStatePlaying\<rparr>)
       = Inr (NewAudioState\<lparr>State := AudioChannelStatePause, Cond := Some 1\<rparr>)
   \<and> SetStop (NewAudioState\<lparr>State := AudioChannelStatePause\<rparr>)
       = Inr (NewAudioState\<lparr>State := AudioChannelStateIdle, Cond := Some 1\<rparr>)"
  using SetPause_SetStop_transitions [of NewAudioState 0]
    SetPause_SetStop_transitions [of "NewAudioState\<lparr>State := AudioChannelStatePlaying\<rparr>" 0]
    SetPause_SetStop_transitions [of "NewAudioState\<lparr>State := AudioChannelStatePause\<rparr>" 0]
  by (simp add: NewAudioState_def state_constants_distinct)

text \<open>
  Claim C8. The claim is that no control operation panics in any state, the state just
  returned by NewAudioState included. NewAudioState sets State and Cond only, so Cancel is
  the nil function there, and both CancelCtx and RestartSessionCtx call it: on a fresh
  AudioState each of them panics.
\<close>

theorem fresh_AudioState_CancelCtx_panics:
  "CancelCtx \<lparr>cancelled = [], next_ctx = 0\<rparr> NewAudioState = Inl NilFuncCall
   \<and> RestartSessionCtx \<lparr>cancelled = [], next_ctx = 0\<rparr> NewAudioState = Inl NilFuncCall"
  by (simp add: CancelCtx_def RestartSessionCtx_def call_Cancel_def NewAudioState_def)

section \<open>Properties of the tool-call accumulator\<close>

lemma first_fragment_only_simps:
  "first_fragment_only (None, e) = (None, e)"
  "first_fragment_only (Some m, e) = (Some (m\<lparr>ToolCalls := take (Suc 0) (ToolCalls m)\<rparr>), e)"
  by (simp_all add: first_fragment_only_def)

lemma on_message_first_fragment:
  "on_message v (m\<lparr>ToolCalls := take (Suc 0) (ToolCalls m)\<rparr>) acc = on_message v m acc"
  by (cases "ToolCalls m") (simp_all add: on_message_def)

lemma response_loop_first_fragment:
  "response_loop v (map first_fragment_only rs) acc = response_loop v rs acc"
proof (induction rs arbitrary: acc)
  case Nil
  show ?case by simp
next
  case (Cons r rs)
  obtain message err where r: "r = (message, err)" by (cases r)
  show ?case
  proof (cases message)
    case None
    with r Cons show ?thesis by (simp add: first_fragment_only_simps)
  next
    case (Some m)
    with r Cons show ?thesis
      by (cases "on_message v m acc")
        (simp_all add: first_fragment_only_simps on_message_first_fragment)
  qed
qed

text \<open>
  Claim C6. A delta whose tool-call fragment has the name \<open>X\<close> and the arguments
  \<open>{"a":\<close>, then a delta whose fragment has no name and the arguments \<open>1}\<close>, then the
  end of the stream (or a failure of it): given that the validator accepts \<open>{"a":1}\<close>,
  exactly one message is sent, and its one tool call is the first fragment with the
  joined arguments \<open>{"a":1}\<close>.
\<close>

theorem tool_call_fragments_joined:
  assumes json: "isValidJSON ''{\"a\":1}''"
    and t1: "Function t1 = \<lparr>Name = ''X'', Arguments = ''{\"a\":''\<rparr>"
    and t2: "Function t2 = \<lparr>Name = [], Arguments = ''1}''\<rparr>"
    and m1: "ToolCalls m1 = [t1]" and m2: "ToolCalls m2 = [t2]"
    and ending: "rest = [] \<or> (\<exists>x e rs. rest = (x, Some e) # rs)"
  shows "EinoResponseWithTools isValidJSON
           (Some ((Some m1, None) # (Some m2, None) # rest), None)
         = Inr [\<lparr>Role = Assistant, Content = [],
                 ToolCalls = [t1\<lparr>Function := \<lparr>Name = ''X'', Arguments = ''{\"a\":1}''\<rparr>\<rparr>]\<rparr>]"
proof -
  let ?acc1 = "accumulator_init\<lparr>currentToolCall := Some t1,
      toolCallBuffer := ''{\"a\":'', isToolCallComplete := False\<rparr>"
  have s1: "on_message isValidJSON m1 accumulator_init = Inr ?acc1"
    by (simp add: on_message_def m1 accumulate_def t1 emit_complete_def accumulator_init_def)
  have s2: "on_message isValidJSON m2 ?acc1 =
      Inr (accumulator_init\<lparr>responseStream :=
         [completeMessage (t1\<lparr>Function := \<lparr>Name = ''X'', Arguments = ''{\"a\":1}''\<rparr>\<rparr>)]\<rparr>)"
    using json
    by (simp add: on_message_def m2 accumulate_def t1 t2 emit_complete_def accumulator_init_def
        Let_def)
  have s3: "response_loop isValidJSON rest (accumulator_init\<lparr>responseStream := ms\<rparr>)
      = Inr (accumulator_init\<lparr>responseStream := ms\<rparr>)" for ms
    using ending by (auto simp: on_stream_end_def accumulator_init_def)
  show ?thesis
    by (simp add: EinoResponseWithTools_def s1 s2 s3 completeMessage_def)
qed

theorem tool_call_fragments_joined_witness:
  "EinoResponseWithTools braces_closed
     (Some [(Some \<lparr>Role = Assistant, Content = [], ToolCalls =
                [\<lparr>Index = Some 0, ID = ''call_1'', Type = ''function'',
                  Function = \<lparr>Name = ''X'', Arguments = ''{\"a\":''\<rparr>\<rparr>]\<rparr>, None),
            (Some \<lparr>Role = Assistant, Content = [], ToolCalls =
                [\<lparr>Index = Some 0, ID = [], Type = [],
                  Function = \<lparr>Name = [], Arguments = ''1}''\<rparr>\<rparr>]\<rparr>, None)], None)
   = Inr [\<lparr>Role = Assistant, Content = [], ToolCalls =
            [\<lparr>Index = Some 0, ID = ''call_1'', Type = ''function'',
              Function = \<lparr>Name = ''X'', Arguments = ''{\"a\":''\<rparr>\<rparr>
             \<lparr>Function := \<lparr>Name = ''X'', Arguments = ''{\"a\":1}''\<rparr>\<rparr>]\<rparr>]"
  by (rule tool_call_fragments_joined) (simp_all add: braces_closed_def)

text \<open>
  Claim C10. Of the tool-call fragments of one delta only the first is looked at: the
  step of the accumulator on a message with the fragments \<open>t # ts\<close> is its step on the
  message with the fragment \<open>t\<close> alone, in the state it leaves and in what it sends, and
  a whole stream gives the same messages once every fragment after the first is taken
  out of every delta.
\<close>

theorem later_fragments_discarded:
  "on_message v (m\<lparr>ToolCalls := t # ts\<rparr>) acc = on_message v (m\<lparr>ToolCalls := [t]\<rparr>) acc
   \<and> EinoResponseWithTools v (map_option (map first_fragment_only) rs, e)
       = EinoResponseWithTools v (rs, e)"
proof
  show "on_message v (m\<lparr>ToolCalls := t # ts\<rparr>) acc = on_message v (m\<lparr>ToolCalls := [t]\<rparr>) acc"
    by (simp add: on_message_def)
  show "EinoResponseWithTools v (map_option (map first_fragment_only) rs, e)
       = EinoResponseWithTools v (rs, e)"
    by (cases rs; cases e) (simp_all add: EinoResponseWithTools_def response_loop_first_fragment)
qed

section \<open>Properties of the TTS fan-out adapter\<close>

lemma on_sentence_failure:
  assumes "tts (Content m) (SampleRate options) (Channel options) (FrameDuration options) = Inl e"
  shows "\<exists>st'. on_sentence env tts options (Some m) st = Inr (Return st')"
  using assms
  by (simp add: on_sentence_def Let_def split: flow.splits)

lemma transform_loop_failure_last:
  assumes "tts (Content m) (SampleRate options) (Channel options) (FrameDuration options) = Inl e"
  shows "transform_loop env tts options (before @ (Some m, None) # after) st
       = transform_loop env tts options (before @ [(Some m, None)]) st"
proof (induction before arbitrary: st)
  case Nil
  from assms on_sentence_failure [where tts = tts and m = m and options = options and e = e
      and env = env and st = "st\<lparr>ctx_checks := Suc (ctx_checks st)\<rparr>"]
  obtain st' where
    "on_sentence env tts options (Some m) (st\<lparr>ctx_checks := Suc (ctx_checks st)\<rparr>) = Inr (Return st')"
    by blast
  then show ?case by simp
next
  case (Cons r before)
  obtain message err where r: "r = (message, err)" by (cases r)
  show ?case unfolding r using Cons.IH by (simp split: sum.splits flow.splits)
qed

lemma on_sentence_failure_undisturbed:
  assumes "tts (Content m) (SampleRate options) (Channel options) (FrameDuration options) = Inl e"
    and "\<not> send_closed env (sends st)" and "\<not> send_closed env (Suc (sends st))"
  shows "on_sentence env tts options (Some m) st
     = Inr (Return (st\<lparr>sends := Suc (Suc (sends st)),
          sentenceStream := sentenceStream st
            @ [\<lparr>chunks = [\<lparr>ChunkText = Content m, Data = []\<rparr>], writer_closed = True\<rparr>],
          callbacks := callbacks st @ (if TtsChunkStartCallback options then [ChunkStart] else [])\<rparr>))"
  using assms
  by (simp add: on_sentence_def Let_def audioStreamWriter_Send_def audioStreamWriter_Close_def
      on_audioStream_def)

text \<open>
  Claim C4, as stated: with three sentence events and a synthesis failure on the second,
  the outer stream yields three sub-streams. The failure is answered at lines 150--154 by
  closing the sentence's sub-stream and returning from the goroutine, so the third event
  is never received: the outer stream yields two sub-streams, the second one holding the
  label chunk only, and is closed.
\<close>

theorem synthesis_failure_counterexample:
  "Transform undisturbed example_provider example_options
     [sentence_message ''one'', sentence_message ''two'', sentence_message ''three'']
   = Inr \<lparr>ctx_checks = 4, sends = 6,
          sentenceStream =
            [\<lparr>chunks = [\<lparr>ChunkText = ''one'', Data = []\<rparr>,
                        \<lparr>ChunkText = [], Data = [1, 2]\<rparr>,
                        \<lparr>ChunkText = [], Data = [3]\<rparr>],
              writer_closed = True\<rparr>,
             \<lparr>chunks = [\<lparr>ChunkText = ''two'', Data = []\<rparr>], writer_closed = True\<rparr>],
          sentenceStream_closed = True,
          callbacks = [ChunkStart, ChunkEnd, ChunkStart]\<rparr>"
  by (simp add: Transform_def on_sentence_def audioStreamWriter_Send_def
      audioStreamWriter_Close_def on_audioStream_def undisturbed_def example_provider_def
      example_options_def sentence_message_def adapter_init_def Let_def)

text \<open>
  Claim C4, amended. When the provider returns an error for a sentence, the adapter stops
  at that sentence: the events after it in the input have no effect on what Transform
  produces, and (the context not being cancelled and the streams not being closed by
  their readers) the sentence's sub-stream is sent on the outer stream, gets the label
  chunk, is closed, and the goroutine returns, so that the outer stream is closed after
  this sub-stream.
\<close>

theorem synthesis_failure_ends_outer_stream:
  assumes "tts (Content m) (SampleRate options) (Channel options) (FrameDuration options) = Inl e"
  shows "Transform env tts options (before @ (Some m, None) # after)
           = Transform env tts options (before @ [(Some m, None)])
     \<and> (\<not> ctx_Done env (ctx_checks st) \<longrightarrow>
         \<not> send_closed env (sends st) \<longrightarrow> \<not> send_closed env (Suc (sends st)) \<longrightarrow>
           transform_loop env tts options ((Some m, None) # after) st
             = Inr (st\<lparr>ctx_checks := Suc (ctx_checks st), sends := Suc (Suc (sends st)),
                  sentenceStream := sentenceStream st
                    @ [\<lparr>chunks = [\<lparr>ChunkText = Content m, Data = []\<rparr>], writer_closed = True\<rparr>],
                  callbacks := callbacks st
                    @ (if TtsChunkStartCallback options then [ChunkStart] else [])\<rparr>))"
proof (intro conjI impI)
  show "Transform env tts options (before @ (Some m, None) # after)
           = Transform env tts options (before @ [(Some m, None)])"
    unfolding Transform_def
    using assms transform_loop_failure_last [where tts = tts and m = m and options = options
        and e = e and env = env and before = before and after = after and st = adapter_init]
    by simp
next
  assume "\<not> ctx_Done env (ctx_checks st)" "\<not> send_closed env (sends st)"
    "\<not> send_closed env (Suc (sends st))"
  then show "transform_loop env tts options ((Some m, None) # after) st
             = Inr (st\<lparr>ctx_checks := Suc (ctx_checks st), sends := Suc (Suc (sends st)),
                  sentenceStream := sentenceStream st
                    @ [\<lparr>chunks = [\<lparr>ChunkText = Content m, Data = []\<rparr>], writer_closed = True\<rparr>],
                  callbacks := callbacks st
                    @ (if TtsChunkStartCallback options then [ChunkStart] else [])\<rparr>)"
    using assms on_sentence_failure_undisturbed [where tts = tts and m = m and options = options
        and e = e and env = env and st = "st\<lparr>ctx_checks := Suc (ctx_checks st)\<rparr>"]
    by simp
qed

theorem synthesis_failure_ends_outer_stream_witness:
  "Transform undisturbed example_provider example_options
      ([sentence_message ''one''] @ sentence_message ''two'' # [sentence_message ''three''])
     = Transform undisturbed example_provider example_options
         ([sentence_message ''one''] @ [sentence_message ''two''])
   \<and> transform_loop undisturbed example_provider example_options
        (sentence_message ''two'' # [sentence_message ''three'']) adapter_init
     = Inr \<lparr>ctx_checks = 1, sends = 2,
            sentenceStream =
              [\<lparr>chunks = [\<lparr>ChunkText = ''two'', Data = []\<rparr>], writer_closed = True\<rparr>],
            sentenceStream_closed = False, callbacks = [ChunkStart]\<rparr>"
proof -
  let ?m = "\<lparr>Role = Assistant, Content = ''two'', ToolCalls = []\<rparr>"
  have fails: "example_provider (Content ?m) (SampleRate example_options)
      (Channel example_options) (FrameDuration example_options) = Inl (Failure ''synthesis failed'')"
    by (simp add: example_provider_def)
  note inst = synthesis_failure_ends_outer_stream [where tts = example_provider and m = "?m"
      and options = example_options and e = "Failure ''synthesis failed''"
      and env = undisturbed and before = "[sentence_message ''one'']"
      and after = "[sentence_message ''three'']" and st = adapter_init, OF fails]
  from inst have "Transform undisturbed example_provider example_options
      ([sentence_message ''one''] @ sentence_message ''two'' # [sentence_message ''three''])
     = Transform undisturbed example_provider example_options
         ([sentence_message ''one''] @ [sentence_message ''two''])"
    unfolding sentence_message_def by (rule conjunct1)
  moreover from inst have "transform_loop undisturbed example_provider example_options
        (sentence_message ''two'' # [sentence_message ''three'']) adapter_init
     = Inr \<lparr>ctx_checks = 1, sends = 2,
            sentenceStream =
              [\<lparr>chunks = [\<lparr>ChunkText = ''two'', Data = []\<rparr>], writer_closed = True\<rparr>],
            sentenceStream_closed = False, callbacks = [ChunkStart]\<rparr>"
    unfolding sentence_message_def
    by (simp add: undisturbed_def adapter_init_def example_options_def del: transform_loop.simps)
  ultimately show ?thesis by (rule conjI)
qed

text \<open>
  A sentence that is synthesised and relayed undisturbed gets both calls, start then end.
\<close>

lemma on_audioStream_callbacks: "callbacks (on_audioStream f st) = callbacks st"
  by (simp add: on_audioStream_def split: list.splits)

lemma relay_frames_undisturbed:
  "\<exists>st'. relay_frames undisturbed frames st = Continue st' \<and> callbacks st' = callbacks st"
proof (induction frames arbitrary: st)
  case Nil
  show ?case by simp
next
  case (Cons frame frames)
  let ?st1 = "on_audioStream (\<lambda>a. a\<lparr>chunks := chunks a @ [\<lparr>ChunkText = [], Data = frame\<rparr>]\<rparr>)
                (st\<lparr>ctx_checks := Suc (ctx_checks st), sends := Suc (sends st)\<rparr>)"
  have "relay_frames undisturbed (frame # frames) st = relay_frames undisturbed frames ?st1"
    by (simp add: undisturbed_def audioStreamWriter_Send_def)
  moreover have "callbacks ?st1 = callbacks st" by (simp add: on_audioStream_callbacks)
  ultimately show ?case using Cons [of ?st1] by simp
qed

lemma on_sentence_completes:
  assumes "tts (Content m) (SampleRate options) (Channel options) (FrameDuration options)
             = Inr outputChan"
  shows "\<exists>st'. on_sentence undisturbed tts options (Some m) st = Inr (Continue st')
           \<and> callbacks st' = callbacks st
                @ (if TtsChunkStartCallback options then [ChunkStart] else [])
                @ (if TtsChunkEndCallback options then [ChunkEnd] else [])"
proof -
  let ?st1 = "if TtsChunkStartCallback options
              then st\<lparr>callbacks := callbacks st @ [ChunkStart]\<rparr> else st"
  let ?st3 = "on_audioStream (\<lambda>a. a\<lparr>chunks := chunks a @ [\<lparr>ChunkText = Content m, Data = []\<rparr>]\<rparr>)
                (?st1\<lparr>sends := Suc (sends ?st1),
                      sentenceStream := sentenceStream ?st1 @ [\<lparr>chunks = [], writer_closed = False\<rparr>]\<rparr>
                 \<lparr>sends := Suc (Suc (sends ?st1))\<rparr>)"
  from relay_frames_undisturbed [of outputChan ?st3] obtain st4 where
    st4: "relay_frames undisturbed outputChan ?st3 = Continue st4" "callbacks st4 = callbacks ?st3"
    by blast
  have send: "send_closed undisturbed = (\<lambda>k. False)" by (simp add: undisturbed_def)
  have "callbacks ?st3 = callbacks st @ (if TtsChunkStartCallback options then [ChunkStart] else [])"
    by (simp add: on_audioStream_callbacks)
  with st4 assms show ?thesis
    by (simp add: on_sentence_def Let_def audioStreamWriter_Send_def send
        audioStreamWriter_Close_def on_audioStream_callbacks)
qed

text \<open>
  Claim C5. The start callback is called once for every message received (line 120); the
  end callback is called only at line 178, which is reached when the frames of the
  sentence have all been relayed. When the provider returns an error the goroutine
  returns at line 153 without calling it: for one sentence whose synthesis fails, with
  both callbacks set, the calls made are the start callback alone.
\<close>

theorem end_callback_not_called_on_failure:
  "Transform undisturbed example_provider example_options [sentence_message ''two'']
   = Inr \<lparr>ctx_checks = 1, sends = 2,
          sentenceStream =
            [\<lparr>chunks = [\<lparr>ChunkText = ''two'', Data = []\<rparr>], writer_closed = True\<rparr>],
          sentenceStream_closed = True, callbacks = [ChunkStart]\<rparr>"
  by (simp add: Transform_def on_sentence_def audioStreamWriter_Send_def
      audioStreamWriter_Close_def on_audioStream_def undisturbed_def example_provider_def
      example_options_def sentence_message_def adapter_init_def Let_def)

section \<open>Properties of the response pipeline controller\<close>

lemma send_Continue:
  "send ctx ev st = Continue st' \<Longrightarrow>
     \<not> ctx (selects st) \<and> st' = st\<lparr>selects := Suc (selects st), sentenceChannel := sentenceChannel st @ [ev]\<rparr>"
  by (auto simp: send_def split: if_splits)

lemma send_Return:
  "send ctx ev st = Return st' \<Longrightarrow> ctx (selects st) \<and> st' = st\<lparr>selects := Suc (selects st)\<rparr>"
  by (auto simp: send_def split: if_splits)

lemma send_sentences_events:
  "\<exists>new. sentenceChannel (state_of (send_sentences ctx ss st)) = sentenceChannel st @ new
     \<and> list_all is_sentence_event new
     \<and> list_all (\<lambda>ev. \<not> IsStart ev) (tl new)
     \<and> (\<not> isFirst st \<longrightarrow> list_all (\<lambda>ev. \<not> IsStart ev) new)"
proof (induction ss arbitrary: st)
  case Nil
  show ?case by simp
next
  case (Cons s ss)
  show ?case
  proof (cases "s = []")
    case True
    with Cons [of st] show ?thesis by simp
  next
    case False
    let ?ev = "\<lparr>Text = s, IsStart = isFirst st, IsEnd = False, RespToolCalls = []\<rparr>"
    show ?thesis
    proof (cases "send ctx ?ev (st\<lparr>firstFrame := True\<rparr>)")
      case (Return st')
      with False send_Return [OF Return] show ?thesis by simp
    next
      case (Continue st')
      from send_Continue [OF Continue]
      have st': "sentenceChannel st' = sentenceChannel st @ [?ev]" by simp
      from Cons [of "st'\<lparr>isFirst := False\<rparr>"] obtain new where
        new: "sentenceChannel (state_of (send_sentences ctx ss (st'\<lparr>isFirst := False\<rparr>)))
                = sentenceChannel st' @ new"
          "list_all is_sentence_event new"
          "list_all (\<lambda>ev. \<not> IsStart ev) new"
        by auto
      have eq: "send_sentences ctx (s # ss) st = send_sentences ctx ss (st'\<lparr>isFirst := False\<rparr>)"
        using False Continue by simp
      have "sentenceChannel (state_of (send_sentences ctx (s # ss) st))
              = sentenceChannel st @ (?ev # new)"
        unfolding eq new(1) st' by simp
      moreover have "list_all is_sentence_event (?ev # new)"
        using new(2) False by (simp add: is_sentence_event_def)
      moreover have "list_all (\<lambda>ev. \<not> IsStart ev) (tl (?ev # new))"
        using new(3) by simp
      moreover have "\<not> isFirst st \<longrightarrow> list_all (\<lambda>ev. \<not> IsStart ev) (?ev # new)"
        using new(3) by simp
      ultimately show ?thesis by blast
    qed
  qed
qed

lemma on_content_empty:
  "Content m = [] \<Longrightarrow> on_content sg ctx m st = Continue st"
  by (simp add: on_content_def)

lemma on_content_no_separator:
  "Content m \<noteq> [] \<Longrightarrow> \<not> ContainsSentenceSeparator sg (Content m) (isFirst st) \<Longrightarrow>
   on_content sg ctx m st
     = Continue (st\<lparr>fullText := fullText st @ Content m, buffer := buffer st @ Content m\<rparr>)"
  by (simp add: on_content_def)

lemma on_content_separator:
  "Content m \<noteq> [] \<Longrightarrow> ContainsSentenceSeparator sg (Content m) (isFirst st) \<Longrightarrow>
   ExtractSmartSentences sg (buffer st @ Content m) 2 100 (isFirst st) = (sentences, remaining) \<Longrightarrow>
   on_content sg ctx m st
     = (case send_sentences ctx sentences
               (st\<lparr>fullText := fullText st @ Content m, buffer := buffer st @ Content m\<rparr>) of
          Return st' \<Rightarrow> Return st'
        | Continue st2 \<Rightarrow> Continue (st2\<lparr>buffer := remaining, isFirst := False\<rparr>))"
  by (cases sentences) (simp_all add: on_content_def)

lemma on_content_events:
  "\<exists>new. sentenceChannel (state_of (on_content sg ctx m st)) = sentenceChannel st @ new
     \<and> list_all is_sentence_event new
     \<and> list_all (\<lambda>ev. \<not> IsStart ev) (tl new)
     \<and> (\<not> isFirst st \<longrightarrow> list_all (\<lambda>ev. \<not> IsStart ev) new)"
proof (cases "Content m \<noteq> [] \<and> ContainsSentenceSeparator sg (Content m) (isFirst st)")
  case False
  then have "sentenceChannel (state_of (on_content sg ctx m st)) = sentenceChannel st @ []"
    by (cases "Content m = []") (simp_all add: on_content_empty on_content_no_separator)
  then show ?thesis by (intro exI [of _ "[]"]) simp
next
  case True
  let ?st1 = "st\<lparr>fullText := fullText st @ Content m, buffer := buffer st @ Content m\<rparr>"
  obtain sentences remaining where
    ex: "ExtractSmartSentences sg (buffer st @ Content m) 2 100 (isFirst st) = (sentences, remaining)"
    by (cases "ExtractSmartSentences sg (buffer st @ Content m) 2 100 (isFirst st)")
  have "sentenceChannel (state_of (on_content sg ctx m st))
          = sentenceChannel (state_of (send_sentences ctx sentences ?st1))"
    using True ex
    by (cases "send_sentences ctx sentences ?st1") (simp_all add: on_content_separator)
  with send_sentences_events [of ctx sentences ?st1] show ?thesis by simp
qed

lemma on_content_Continue:
  assumes "on_content sg ctx m st = Continue st'"
  shows "isFirst st' \<longrightarrow> isFirst st \<and> sentenceChannel st' = sentenceChannel st"
proof (cases "Content m \<noteq> [] \<and> ContainsSentenceSeparator sg (Content m) (isFirst st)")
  case False
  with assms show ?thesis
    by (cases "Content m = []") (auto simp: on_content_empty on_content_no_separator)
next
  case True
  obtain sentences remaining where
    ex: "ExtractSmartSentences sg (buffer st @ Content m) 2 100 (isFirst st) = (sentences, remaining)"
    by (cases "ExtractSmartSentences sg (buffer st @ Content m) 2 100 (isFirst st)")
  from assms True ex have "\<not> isFirst st'"
    by (auto simp: on_content_separator split: flow.splits)
  then show ?thesis by simp
qed

lemma on_tool_calls_events:
  "\<exists>new. sentenceChannel (state_of (on_tool_calls ctx m st)) = sentenceChannel st @ new
     \<and> list_all (\<lambda>ev. \<not> is_sentence_event ev \<and> \<not> IsEnd ev \<and> IsStart ev = isFirst st) new"
proof (cases "ToolCalls m \<noteq> [] \<and> \<not> ctx (selects st)")
  case True
  then show ?thesis
    by (intro exI [of _ "[\<lparr>Text = [], IsStart = isFirst st, IsEnd = False,
            RespToolCalls = ToolCalls m\<rparr>]"])
      (simp add: on_tool_calls_def send_def is_sentence_event_def)
next
  case False
  then show ?thesis
    by (intro exI [of _ "[]"]) (auto simp: on_tool_calls_def send_def)
qed

lemma on_tool_calls_Continue:
  "on_tool_calls ctx m st = Continue st' \<Longrightarrow> isFirst st' = isFirst st"
  by (auto simp: on_tool_calls_def send_def split: if_splits)

lemma on_EOF_events:
  "sentenceChannel (on_EOF ctx st) = sentenceChannel st
   \<or> sentenceChannel (on_EOF ctx st)
       = sentenceChannel st @ [\<lparr>Text = buffer st, IsStart = False, IsEnd = True, RespToolCalls = []\<rparr>]"
  by (simp add: on_EOF_def send_def Let_def)

lemma loop_Cons:
  "loop sg ctx ((message, err) # rs) st =
     (if ctx (selects st) then st\<lparr>selects := Suc (selects st)\<rparr>
      else if err = Some EOF then on_EOF ctx (st\<lparr>selects := Suc (selects st)\<rparr>)
      else (case message of
              None \<Rightarrow> st\<lparr>selects := Suc (selects st)\<rparr>
            | Some m \<Rightarrow>
                (case iteration sg ctx m (st\<lparr>selects := Suc (selects st)\<rparr>) of
                   Return st' \<Rightarrow> st'
                 | Continue st2 \<Rightarrow> loop sg ctx rs st2)))"
  by (simp add: iteration_def Let_def split: option.splits flow.splits)

lemma list_all_tl_append:
  "list_all P (tl xs) \<Longrightarrow> list_all P ys \<Longrightarrow> list_all P (tl (xs @ ys))"
proof (cases xs)
  case Nil
  assume "list_all P ys"
  then have "list_all P (tl ys)" by (cases ys) simp_all
  with Nil show ?thesis by simp
next
  case (Cons x xs')
  assume "list_all P (tl xs)" "list_all P ys"
  with Cons show ?thesis by simp
qed

lemma iteration_events:
  "\<exists>new. sentenceChannel (state_of (iteration sg ctx m st)) = sentenceChannel st @ new
     \<and> list_all (\<lambda>ev. \<not> IsEnd ev) new
     \<and> list_all (\<lambda>ev. \<not> IsStart ev) (tl (filter is_sentence_event new))
     \<and> (\<not> isFirst st \<longrightarrow> list_all (\<lambda>ev. \<not> IsStart ev) new)
     \<and> (\<forall>st'. iteration sg ctx m st = Continue st' \<longrightarrow> isFirst st' \<longrightarrow>
           isFirst st \<and> filter is_sentence_event new = [])"
proof -
  obtain new1 where new1:
    "sentenceChannel (state_of (on_content sg ctx m st)) = sentenceChannel st @ new1"
    "list_all is_sentence_event new1"
    "list_all (\<lambda>ev. \<not> IsStart ev) (tl new1)"
    "\<not> isFirst st \<longrightarrow> list_all (\<lambda>ev. \<not> IsStart ev) new1"
    using on_content_events [of sg ctx m st] by blast
  have noend1: "list_all (\<lambda>ev. \<not> IsEnd ev) new1"
    using new1(2) by (simp add: list_all_iff is_sentence_event_def)
  have f1: "filter is_sentence_event new1 = new1"
    using new1(2) by (simp add: list_all_iff)
  show ?thesis
  proof (cases "on_content sg ctx m st")
    case (Return st')
    then have "sentenceChannel (state_of (iteration sg ctx m st)) = sentenceChannel st @ new1"
      "\<forall>st'. iteration sg ctx m st \<noteq> Continue st'"
      using new1(1) by (simp_all add: iteration_def)
    then show ?thesis using noend1 f1 new1(3,4) by (intro exI [of _ new1]) simp
  next
    case (Continue st1)
    then have c1: "sentenceChannel st1 = sentenceChannel st @ new1" using new1(1) by simp
    have it: "iteration sg ctx m st = on_tool_calls ctx m st1"
      using Continue by (simp add: iteration_def)
    obtain new2 where new2:
      "sentenceChannel (state_of (on_tool_calls ctx m st1)) = sentenceChannel st1 @ new2"
      "list_all (\<lambda>ev. \<not> is_sentence_event ev \<and> \<not> IsEnd ev \<and> IsStart ev = isFirst st1) new2"
      using on_tool_calls_events [of ctx m st1] by blast
    have f2: "filter is_sentence_event new2 = []"
      using new2(2) by (simp add: list_all_iff filter_empty_conv)
    have first1: "isFirst st1 \<longrightarrow> isFirst st \<and> new1 = []"
      using on_content_Continue [OF Continue] c1 by simp
    have a: "sentenceChannel (state_of (iteration sg ctx m st)) = sentenceChannel st @ (new1 @ new2)"
      unfolding it new2(1) c1 by simp
    have b: "list_all (\<lambda>ev. \<not> IsEnd ev) (new1 @ new2)"
      using noend1 new2(2) by (auto simp: list_all_iff)
    have c: "list_all (\<lambda>ev. \<not> IsStart ev) (tl (filter is_sentence_event (new1 @ new2)))"
      using f1 f2 new1(3) by simp
    have d: "\<not> isFirst st \<longrightarrow> list_all (\<lambda>ev. \<not> IsStart ev) (new1 @ new2)"
      using new1(4) new2(2) first1 by (auto simp: list_all_iff)
    have e: "\<forall>st'. iteration sg ctx m st = Continue st' \<longrightarrow> isFirst st' \<longrightarrow>
           isFirst st \<and> filter is_sentence_event (new1 @ new2) = []"
    proof (intro allI impI)
      fix st' assume "iteration sg ctx m st = Continue st'" "isFirst st'"
      then have "isFirst st1" using it on_tool_calls_Continue [of ctx m st1 st'] by simp
      with first1 f2 show "isFirst st \<and> filter is_sentence_event (new1 @ new2) = []" by simp
    qed
    from a b c d e show ?thesis by blast
  qed
qed

lemma run_events_Nil: "sentenceChannel st' = sentenceChannel st \<Longrightarrow> run_events st st' []"
  by (simp add: run_events_def)

lemma run_events_on_EOF: "\<exists>new. run_events st (on_EOF ctx (st\<lparr>selects := k\<rparr>)) new"
proof -
  let ?ev = "\<lparr>Text = buffer st, IsStart = False, IsEnd = True, RespToolCalls = []\<rparr>"
  from on_EOF_events [of ctx "st\<lparr>selects := k\<rparr>"]
  have "run_events st (on_EOF ctx (st\<lparr>selects := k\<rparr>)) []
        \<or> run_events st (on_EOF ctx (st\<lparr>selects := k\<rparr>)) [?ev]"
    by (auto simp: run_events_def is_sentence_event_def)
  then show ?thesis by blast
qed

lemma loop_events: "\<exists>new. run_events st (loop sg ctx rs st) new"
proof (induction rs arbitrary: st)
  case Nil
  show ?case
  proof (cases "ctx (selects st)")
    case True
    then have "run_events st (loop sg ctx [] st) []" by (simp add: run_events_Nil)
    then show ?thesis ..
  next
    case False
    then show ?thesis using run_events_on_EOF [of st ctx "Suc (selects st)"] by simp
  qed
next
  case (Cons r rs)
  obtain message err where r: "r = (message, err)" by (cases r)
  let ?st0 = "st\<lparr>selects := Suc (selects st)\<rparr>"
  consider (cancel) "ctx (selects st)"
    | (eof) "\<not> ctx (selects st)" "err = Some EOF"
    | (nil) "\<not> ctx (selects st)" "err \<noteq> Some EOF" "message = None"
    | (msg) m where "\<not> ctx (selects st)" "err \<noteq> Some EOF" "message = Some m"
    by (cases message) auto
  then show ?case
  proof cases
    case cancel
    then have "run_events st (loop sg ctx (r # rs) st) []"
      unfolding r loop_Cons by (simp add: run_events_Nil)
    then show ?thesis ..
  next
    case eof
    then show ?thesis
      unfolding r loop_Cons using run_events_on_EOF [of st ctx "Suc (selects st)"] by simp
  next
    case nil
    then have "run_events st (loop sg ctx (r # rs) st) []"
      unfolding r loop_Cons by (simp add: run_events_Nil)
    then show ?thesis ..
  next
    case msg
    obtain new1 where new1:
      "sentenceChannel (state_of (iteration sg ctx m ?st0)) = sentenceChannel st @ new1"
      "list_all (\<lambda>ev. \<not> IsEnd ev) new1"
      "list_all (\<lambda>ev. \<not> IsStart ev) (tl (filter is_sentence_event new1))"
      "\<not> isFirst st \<longrightarrow> list_all (\<lambda>ev. \<not> IsStart ev) new1"
      "\<forall>st'. iteration sg ctx m ?st0 = Continue st' \<longrightarrow> isFirst st' \<longrightarrow>
           isFirst st \<and> filter is_sentence_event new1 = []"
      using iteration_events [of sg ctx m ?st0] by auto
    show ?thesis
    proof (cases "iteration sg ctx m ?st0")
      case (Return st')
      then have lp: "loop sg ctx (r # rs) st = st'"
        unfolding r loop_Cons using msg by simp
      have "list_all (\<lambda>ev. \<not> IsEnd ev) (butlast new1)"
        using new1(2) by (auto simp: list_all_iff dest: in_set_butlastD)
      then have "run_events st (loop sg ctx (r # rs) st) new1"
        using new1 Return unfolding lp by (simp add: run_events_def)
      then show ?thesis ..
    next
      case (Continue st2)
      then have lp: "loop sg ctx (r # rs) st = loop sg ctx rs st2"
        unfolding r loop_Cons using msg by simp
      have c2: "sentenceChannel st2 = sentenceChannel st @ new1"
        using new1(1) Continue by simp
      have first2: "isFirst st2 \<longrightarrow> isFirst st \<and> filter is_sentence_event new1 = []"
        using new1(5) Continue by simp
      from Cons [of st2] obtain new2 where new2:
        "sentenceChannel (loop sg ctx rs st2) = sentenceChannel st2 @ new2"
        "list_all (\<lambda>ev. \<not> IsEnd ev) (butlast new2)"
        "list_all (\<lambda>ev. \<not> IsStart ev) (tl (filter is_sentence_event new2))"
        "\<not> isFirst st2 \<longrightarrow> list_all (\<lambda>ev. \<not> IsStart ev) new2"
        by (auto simp: run_events_def)
      have a: "sentenceChannel (loop sg ctx (r # rs) st) = sentenceChannel st @ (new1 @ new2)"
        unfolding lp new2(1) c2 by simp
      have b: "list_all (\<lambda>ev. \<not> IsEnd ev) (butlast (new1 @ new2))"
        using new1(2) new2(2)
        by (auto simp: butlast_append list_all_iff dest: in_set_butlastD)
      have c: "list_all (\<lambda>ev. \<not> IsStart ev) (tl (filter is_sentence_event (new1 @ new2)))"
      proof (cases "isFirst st2")
        case True
        with first2 new2(3) show ?thesis by simp
      next
        case False
        with new2(4) have "list_all (\<lambda>ev. \<not> IsStart ev) (filter is_sentence_event new2)"
          by (simp add: list_all_iff)
        with new1(3) show ?thesis by (simp add: list_all_tl_append)
      qed
      have d: "\<not> isFirst st \<longrightarrow> list_all (\<lambda>ev. \<not> IsStart ev) (new1 @ new2)"
        using new1(4) new2(4) first2 by auto
      from a b c d have "run_events st (loop sg ctx (r # rs) st) (new1 @ new2)"
        by (simp add: run_events_def)
      then show ?thesis ..
    qed
  qed
qed

lemma send_sentences_not_cancelled:
  "\<forall>k. \<not> ctx k \<Longrightarrow> \<exists>st'. send_sentences ctx ss st = Continue st'"
  by (induction ss arbitrary: st) (simp_all add: send_def)

lemma iteration_not_cancelled:
  assumes "\<forall>k. \<not> ctx k"
  shows "\<exists>st'. iteration sg ctx m st = Continue st'"
proof -
  have "\<exists>st1. on_content sg ctx m st = Continue st1"
  proof (cases "Content m \<noteq> [] \<and> ContainsSentenceSeparator sg (Content m) (isFirst st)")
    case False
    then show ?thesis
      by (cases "Content m = []") (simp_all add: on_content_empty on_content_no_separator)
  next
    case True
    obtain sentences remaining where
      ex: "ExtractSmartSentences sg (buffer st @ Content m) 2 100 (isFirst st) = (sentences, remaining)"
      by (cases "ExtractSmartSentences sg (buffer st @ Content m) 2 100 (isFirst st)")
    from send_sentences_not_cancelled [OF assms] obtain st2 where
      "send_sentences ctx sentences
         (st\<lparr>fullText := fullText st @ Content m, buffer := buffer st @ Content m\<rparr>) = Continue st2"
      by blast
    with True ex show ?thesis by (simp add: on_content_separator)
  qed
  then obtain st1 where "on_content sg ctx m st = Continue st1" ..
  then show ?thesis using assms by (simp add: iteration_def on_tool_calls_def send_def)
qed

lemma on_EOF_buffer: "buffer (on_EOF ctx st) = buffer st"
  by (simp add: on_EOF_def send_def Let_def)

lemma on_EOF_not_cancelled:
  "\<not> ctx (selects st) \<Longrightarrow>
   sentenceChannel (on_EOF ctx st)
     = sentenceChannel st @ [\<lparr>Text = buffer st, IsStart = False, IsEnd = True, RespToolCalls = []\<rparr>]"
  by (simp add: on_EOF_def send_def Let_def)

lemma loop_at_EOF:
  "at_EOF rest \<Longrightarrow> \<not> ctx (selects st) \<Longrightarrow>
   loop sg ctx rest st = on_EOF ctx (st\<lparr>selects := Suc (selects st)\<rparr>)"
  by (cases rest) auto

lemma delta_text_Some: "delta_text (Some m, err) = Content m"
  by (simp add: delta_text_def)

lemma loop_after_deltas:
  "list_all is_delta ds \<Longrightarrow>
   loop sg ctx (ds @ rest) st
     = (case after_deltas sg ctx ds st of Return st' \<Rightarrow> st' | Continue st' \<Rightarrow> loop sg ctx rest st')"
proof (induction ds arbitrary: st)
  case Nil
  show ?case by simp
next
  case (Cons d ds)
  from Cons.prems obtain m err where d: "d = (Some m, err)" "err \<noteq> Some EOF"
    by (cases d) (auto simp: is_delta_def)
  from Cons.prems have "list_all is_delta ds" by simp
  note IH = Cons.IH [OF this]
  show ?case unfolding d using d(2) IH
    by (simp add: Let_def split: flow.splits)
qed

lemma after_deltas_not_cancelled:
  assumes "\<forall>k. \<not> ctx k"
  shows "list_all is_delta ds \<Longrightarrow> \<exists>st'. after_deltas sg ctx ds st = Continue st'"
proof (induction ds arbitrary: st)
  case Nil
  show ?case by simp
next
  case (Cons d ds)
  from Cons.prems obtain m err where d: "d = (Some m, err)"
    by (cases d) (auto simp: is_delta_def)
  from iteration_not_cancelled [OF assms, of sg m "st\<lparr>selects := Suc (selects st)\<rparr>"]
  obtain st2 where "iteration sg ctx m (st\<lparr>selects := Suc (selects st)\<rparr>) = Continue st2"
    by blast
  then obtain st1 where
    "on_content sg ctx m (st\<lparr>selects := Suc (selects st)\<rparr>) = Continue st1"
    "on_tool_calls ctx m st1 = Continue st2"
    by (auto simp: iteration_def split: flow.splits)
  moreover from Cons.prems have "list_all is_delta ds" by simp
  from Cons.IH [OF this, of st2] obtain st' where "after_deltas sg ctx ds st2 = Continue st'" ..
  moreover from assms have "\<not> ctx (selects st)" by simp
  ultimately show ?case unfolding d by simp
qed

lemma after_plain_deltas:
  assumes "\<forall>k. \<not> ctx k"
  shows "list_all (plain_delta sg) ds \<Longrightarrow> isFirst st \<Longrightarrow>
    \<exists>st'. after_deltas sg ctx ds st = Continue st'
      \<and> sentenceChannel st' = sentenceChannel st
      \<and> buffer st' = buffer st @ concat (map delta_text ds)"
proof (induction ds arbitrary: st)
  case Nil
  show ?case by simp
next
  case (Cons d ds)
  from Cons.prems(1) obtain m err where d: "d = (Some m, err)" "ToolCalls m = []"
    "Content m = [] \<or> \<not> ContainsSentenceSeparator sg (Content m) True"
    by (cases d) (auto simp: plain_delta_def split: option.splits)
  let ?st0 = "st\<lparr>selects := Suc (selects st)\<rparr>"
  have "\<exists>st1. on_content sg ctx m ?st0 = Continue st1 \<and> isFirst st1
          \<and> sentenceChannel st1 = sentenceChannel st \<and> buffer st1 = buffer st @ Content m"
  proof (cases "Content m = []")
    case True
    with Cons.prems(2) show ?thesis by (simp add: on_content_empty)
  next
    case False
    with d(3) Cons.prems(2) show ?thesis by (simp add: on_content_no_separator)
  qed
  then obtain st1 where st1: "on_content sg ctx m ?st0 = Continue st1" "isFirst st1"
    "sentenceChannel st1 = sentenceChannel st" "buffer st1 = buffer st @ Content m" by blast
  have tc: "on_tool_calls ctx m st1 = Continue st1" using d(2) by (simp add: on_tool_calls_def)
  from Cons.prems(1) have "list_all (plain_delta sg) ds" by simp
  from Cons.IH [OF this st1(2)] obtain st' where
    "after_deltas sg ctx ds st1 = Continue st'" "sentenceChannel st' = sentenceChannel st1"
    "buffer st' = buffer st1 @ concat (map delta_text ds)" by blast
  moreover from assms have "\<not> ctx (selects st)" by simp
  ultimately show ?case unfolding d(1) using st1 tc by (simp add: delta_text_Some)
qed

lemma plain_delta_is_delta: "plain_delta sg r \<Longrightarrow> is_delta r"
  by (cases r) (auto simp: plain_delta_def is_delta_def split: option.splits)

lemma loop_EOF_step:
  assumes "\<forall>k. \<not> ctx k" and "at_EOF rest"
  shows "sentenceChannel (loop sg ctx rest st)
         = sentenceChannel st
           @ [\<lparr>Text = buffer st, IsStart = False, IsEnd = True, RespToolCalls = []\<rparr>]"
  using assms by (simp add: loop_at_EOF on_EOF_not_cancelled)

lemma loop_error_without_message:
  "err \<noteq> Some EOF \<Longrightarrow> \<not> ctx (selects st) \<Longrightarrow>
   loop sg ctx ((None, err) # rs) st = st\<lparr>selects := Suc (selects st)\<rparr>"
  by simp









lemma loop_no_event_after_end:
  assumes "sentenceChannel (loop sg ctx rs controller_init) = before @ ev # after" and "IsEnd ev"
  shows "after = []"
proof (rule ccontr)
  assume "after \<noteq> []"
  then have "ev \<in> set (butlast (before @ ev # after))" by (simp add: butlast_append)
  moreover from loop_events [of controller_init sg ctx rs]
  have "list_all (\<lambda>ev. \<not> IsEnd ev) (butlast (sentenceChannel (loop sg ctx rs controller_init)))"
    by (auto simp: run_events_def controller_init_def)
  ultimately show False using assms by (simp add: list_all_iff)
qed

text \<open>
  Claim C1. In a run that is not cancelled, on a stream of deltas that then ends (Recv
  returns \<open>io.EOF\<close>): the deltas are handled without a return, which leaves the
  goroutine in the state \<open>st_eof\<close> that \<open>after_deltas\<close> computes without any part
  of the end-of-stream handler; the channel then holds what had been sent up to there and
  exactly one more event, whose text is the buffer of \<open>st_eof\<close> (the empty text when
  the buffer is empty) and whose end flag is set, and it is closed. The same holds for the
  end of the stream met in any state \<open>st\<close>. In particular, deltas that only add to the
  buffer give one event, with their joined texts and the end flag; and a stream that ends
  at once gives one event, with the empty text and the end flag.
\<close>

theorem end_of_stream_event:
  assumes "\<forall>k. \<not> ctx k" and "list_all is_delta deltas" and "at_EOF rest"
  shows "(\<exists>st_eof. after_deltas sg ctx deltas controller_init = Continue st_eof
            \<and> HandleLLMWithContextAndTools sg ctx (Inr (deltas @ rest))
                = Inr \<lparr>events = sentenceChannel st_eof
                         @ [\<lparr>Text = buffer st_eof, IsStart = False, IsEnd = True,
                             RespToolCalls = []\<rparr>],
                       closed = True\<rparr>)
         \<and> sentenceChannel (loop sg ctx rest st)
             = sentenceChannel st
               @ [\<lparr>Text = buffer st, IsStart = False, IsEnd = True, RespToolCalls = []\<rparr>]
         \<and> (list_all (plain_delta sg) deltas \<longrightarrow>
              HandleLLMWithContextAndTools sg ctx (Inr (deltas @ rest))
                = Inr \<lparr>events = [\<lparr>Text = concat (map delta_text deltas), IsStart = False,
                                  IsEnd = True, RespToolCalls = []\<rparr>],
                       closed = True\<rparr>)
         \<and> HandleLLMWithContextAndTools sg ctx (Inr rest)
             = Inr \<lparr>events = [\<lparr>Text = [], IsStart = False, IsEnd = True, RespToolCalls = []\<rparr>],
                    closed = True\<rparr>"
proof (intro conjI impI)
  from after_deltas_not_cancelled [OF assms(1,2)] obtain st_eof where
    st: "after_deltas sg ctx deltas controller_init = Continue st_eof" by blast
  have "loop sg ctx (deltas @ rest) controller_init = loop sg ctx rest st_eof"
    using loop_after_deltas [OF assms(2), of sg ctx rest controller_init] st by simp
  then have "HandleLLMWithContextAndTools sg ctx (Inr (deltas @ rest))
      = Inr \<lparr>events = sentenceChannel st_eof
                @ [\<lparr>Text = buffer st_eof, IsStart = False, IsEnd = True, RespToolCalls = []\<rparr>],
             closed = True\<rparr>"
    by (simp add: HandleLLMWithContextAndTools_def loop_EOF_step [OF assms(1,3)])
  with st show "\<exists>st_eof. after_deltas sg ctx deltas controller_init = Continue st_eof
            \<and> HandleLLMWithContextAndTools sg ctx (Inr (deltas @ rest))
                = Inr \<lparr>events = sentenceChannel st_eof
                         @ [\<lparr>Text = buffer st_eof, IsStart = False, IsEnd = True,
                             RespToolCalls = []\<rparr>],
                       closed = True\<rparr>" by blast
next
  show "sentenceChannel (loop sg ctx rest st)
             = sentenceChannel st
               @ [\<lparr>Text = buffer st, IsStart = False, IsEnd = True, RespToolCalls = []\<rparr>]"
    by (rule loop_EOF_step [OF assms(1,3)])
next
  assume plain: "list_all (plain_delta sg) deltas"
  have init: "isFirst controller_init" "sentenceChannel controller_init = []"
    "buffer controller_init = []" by (simp_all add: controller_init_def)
  from after_plain_deltas [OF assms(1) plain init(1)] obtain st' where
    st': "after_deltas sg ctx deltas controller_init = Continue st'"
    "sentenceChannel st' = []" "buffer st' = concat (map delta_text deltas)"
    using init by auto
  have "loop sg ctx (deltas @ rest) controller_init = loop sg ctx rest st'"
    using loop_after_deltas [OF assms(2), of sg ctx rest controller_init] st' by simp
  then show "HandleLLMWithContextAndTools sg ctx (Inr (deltas @ rest))
                = Inr \<lparr>events = [\<lparr>Text = concat (map delta_text deltas), IsStart = False,
                                  IsEnd = True, RespToolCalls = []\<rparr>],
                       closed = True\<rparr>"
    using st'(2,3) by (simp add: HandleLLMWithContextAndTools_def loop_EOF_step [OF assms(1,3)])
next
  show "HandleLLMWithContextAndTools sg ctx (Inr rest)
             = Inr \<lparr>events = [\<lparr>Text = [], IsStart = False, IsEnd = True, RespToolCalls = []\<rparr>],
                    closed = True\<rparr>"
    by (simp add: HandleLLMWithContextAndTools_def loop_EOF_step [OF assms(1,3)]
        controller_init_def)
qed

theorem end_of_stream_event_witness:
  "HandleLLMWithContextAndTools example_segmenter background
     (Inr ([(Some \<lparr>Role = Assistant, Content = ''Bye'', ToolCalls = []\<rparr>, None)] @ []))
     = Inr \<lparr>events = [\<lparr>Text = ''Bye'', IsStart = False, IsEnd = True, RespToolCalls = []\<rparr>],
            closed = True\<rparr>
   \<and> HandleLLMWithContextAndTools example_segmenter background
     (Inr ([(Some \<lparr>Role = Assistant, Content = ''Hi. Bye'', ToolCalls = []\<rparr>, None)] @ []))
     = Inr \<lparr>events = [\<lparr>Text = ''Hi.'', IsStart = True, IsEnd = False, RespToolCalls = []\<rparr>,
                      \<lparr>Text = '' Bye'', IsStart = False, IsEnd = True, RespToolCalls = []\<rparr>],
            closed = True\<rparr>
   \<and> HandleLLMWithContextAndTools example_segmenter background (Inr [])
     = Inr \<lparr>events = [\<lparr>Text = [], IsStart = False, IsEnd = True, RespToolCalls = []\<rparr>],
            closed = True\<rparr>"
proof -
  let ?bye = "[(Some \<lparr>Role = Assistant, Content = ''Bye'', ToolCalls = []\<rparr>, None)]"
  let ?hi = "[(Some \<lparr>Role = Assistant, Content = ''Hi. Bye'', ToolCalls = []\<rparr>, None)]"
  have never: "\<forall>k. \<not> background k" by (simp add: background_def)
  have deltas: "list_all is_delta ?bye" "list_all is_delta ?hi" by (simp_all add: is_delta_def)
  have eof: "at_EOF []" by simp
  have plain: "list_all (plain_delta example_segmenter) ?bye"
    by (simp add: plain_delta_def example_segmenter_def)
  have joined: "concat (map delta_text ?bye) = ''Bye''" by (simp add: delta_text_Some)
  have run: "after_deltas example_segmenter background ?hi controller_init
      = Continue \<lparr>buffer = '' Bye'', isFirst = False, firstFrame = True,
          fullText = ''Hi. Bye'', selects = 2,
          sentenceChannel = [\<lparr>Text = ''Hi.'', IsStart = True, IsEnd = False,
                               RespToolCalls = []\<rparr>]\<rparr>"
    by (simp add: on_content_def on_tool_calls_def send_def controller_init_def background_def
        example_segmenter_def Let_def)
  note bye = end_of_stream_event [OF never deltas(1) eof, of example_segmenter controller_init]
  note hi = end_of_stream_event [OF never deltas(2) eof, of example_segmenter controller_init]
  from bye plain have "HandleLLMWithContextAndTools example_segmenter background (Inr (?bye @ []))
      = Inr \<lparr>events = [\<lparr>Text = concat (map delta_text ?bye), IsStart = False,
                        IsEnd = True, RespToolCalls = []\<rparr>], closed = True\<rparr>"
    by blast
  then have c1: "HandleLLMWithContextAndTools example_segmenter background (Inr (?bye @ []))
      = Inr \<lparr>events = [\<lparr>Text = ''Bye'', IsStart = False, IsEnd = True, RespToolCalls = []\<rparr>],
             closed = True\<rparr>"
    unfolding joined .
  from hi run have c2: "HandleLLMWithContextAndTools example_segmenter background (Inr (?hi @ []))
     = Inr \<lparr>events = [\<lparr>Text = ''Hi.'', IsStart = True, IsEnd = False, RespToolCalls = []\<rparr>,
                      \<lparr>Text = '' Bye'', IsStart = False, IsEnd = True, RespToolCalls = []\<rparr>],
            closed = True\<rparr>"
    by auto
  from bye have c3: "HandleLLMWithContextAndTools example_segmenter background (Inr [])
     = Inr \<lparr>events = [\<lparr>Text = [], IsStart = False, IsEnd = True, RespToolCalls = []\<rparr>],
            closed = True\<rparr>" by blast
  from c1 c2 c3 show ?thesis by (intro conjI)
qed

text \<open>
  Claim C2. In every run, cancelled or not and whatever the stream and the segmenter, an
  event with the end flag set has no event after it on the channel, and the channel is
  closed when the goroutine has ended.
\<close>

theorem no_event_after_end_event:
  assumes "HandleLLMWithContextAndTools sg ctx llmStreamReader = Inr ch"
    and "events ch = before @ ev # after" and "IsEnd ev"
  shows "after = [] \<and> closed ch"
proof -
  from assms(1) obtain rs where
    "ch = \<lparr>events = sentenceChannel (loop sg ctx rs controller_init), closed = True\<rparr>"
    by (auto simp: HandleLLMWithContextAndTools_def split: sum.splits)
  with assms(2,3) loop_no_event_after_end [of sg ctx rs before ev after] show ?thesis by simp
qed

theorem no_event_after_end_event_witness:
  "HandleLLMWithContextAndTools example_segmenter background
     (Inr [(Some \<lparr>Role = Assistant, Content = [], ToolCalls =
              [\<lparr>Index = None, ID = ''call_1'', Type = ''function'',
                Function = \<lparr>Name = ''X'', Arguments = ''{}''\<rparr>\<rparr>]\<rparr>, None)])
     = Inr \<lparr>events =
         [\<lparr>Text = [], IsStart = True, IsEnd = False, RespToolCalls =
            [\<lparr>Index = None, ID = ''call_1'', Type = ''function'',
              Function = \<lparr>Name = ''X'', Arguments = ''{}''\<rparr>\<rparr>]\<rparr>]
         @ \<lparr>Text = [], IsStart = False, IsEnd = True, RespToolCalls = []\<rparr> # [],
         closed = True\<rparr>
   \<and> (([] :: LLMResponseStruct list) = []
        \<and> closed \<lparr>events =
         [\<lparr>Text = [], IsStart = True, IsEnd = False, RespToolCalls =
            [\<lparr>Index = None, ID = ''call_1'', Type = ''function'',
              Function = \<lparr>Name = ''X'', Arguments = ''{}''\<rparr>\<rparr>]\<rparr>]
         @ \<lparr>Text = [], IsStart = False, IsEnd = True, RespToolCalls = []\<rparr> # [],
         closed = True\<rparr>)"
proof -
  let ?tc = "\<lparr>Index = None, ID = ''call_1'', Type = ''function'',
              Function = \<lparr>Name = ''X'', Arguments = ''{}''\<rparr>\<rparr>"
  let ?end = "\<lparr>Text = [], IsStart = False, IsEnd = True, RespToolCalls = []\<rparr>"
  let ?ch = "\<lparr>events = [\<lparr>Text = [], IsStart = True, IsEnd = False, RespToolCalls = [?tc]\<rparr>]
                @ ?end # [], closed = True\<rparr>"
  have run: "HandleLLMWithContextAndTools example_segmenter background
      (Inr [(Some \<lparr>Role = Assistant, Content = [], ToolCalls = [?tc]\<rparr>, None)]) = Inr ?ch"
    by (simp add: HandleLLMWithContextAndTools_def on_content_def on_tool_calls_def send_def
        on_EOF_def controller_init_def background_def)
  have split: "events ?ch
      = [\<lparr>Text = [], IsStart = True, IsEnd = False, RespToolCalls = [?tc]\<rparr>] @ ?end # []"
    by simp
  have flag: "IsEnd ?end" by simp
  show ?thesis
    by (rule conjI [OF run no_event_after_end_event [OF run split flag]])
qed





end
